theory Spec2Isabelle
  imports Complex_Main "HOL-Library.Sublist"
begin

section \<open>Values, events and the world the handlers act on\<close>

text \<open>
  The streaming handlers of \<^verbatim>\<open>pkg/server/run.go\<close> pass Go maps with string keys to
  \<^verbatim>\<open>writeServerSentEvent\<close>. A value stored under a key is what \<^verbatim>\<open>json.Unmarshal\<close> puts
  into a \<^verbatim>\<open>map[string]any\<close> (nil, bool, float64, string, slice, map) or a \<^verbatim>\<open>time.Time\<close>.
  A finite float64 is kept as the rational number it denotes; no arithmetic is done on it.
  A map is kept as an association list read with \<open>map_of\<close>.
\<close>

datatype goval =
    GNil
  | GBool bool
  | GFloat rat
  | GString string
  | GSlice "goval list"
  | GMap "(string \<times> goval) list"
  | GTime nat

type_synonym event = "(string \<times> goval) list"

text \<open>\<^verbatim>\<open>e[k]\<close> on a \<^verbatim>\<open>map[string]any\<close>: a missing key reads as the nil interface.\<close>

definition index :: "event \<Rightarrow> string \<Rightarrow> goval" where
  "index e k = (case map_of e k of None \<Rightarrow> GNil | Some v \<Rightarrow> v)"

text \<open>
  Everything the handlers do to the response writer, the logger and their inputs is
  recorded, in order, in one trace.
\<close>

datatype level = Debug | Warn | Error

datatype action =
    SetHeader string string
  | WriteHeader int
  | WriteCall string
  | Flush
  | Log level string
  | ReadAll string
  | WaitCall

type_synonym trace = "action list"

text \<open>
  Library code and the environment are parameters: \<open>marshal\<close> is \<^verbatim>\<open>json.Marshal\<close>
  (\<open>Inl\<close> carries the error's text), \<open>sprint\<close> is the \<^verbatim>\<open>%v\<close> rendering of a value that is
  neither nil nor a string, \<open>quote\<close> and \<open>itoa\<close> are the verbs \<^verbatim>\<open>%q\<close> and \<^verbatim>\<open>%d\<close>,
  \<open>write_ok n\<close> says whether the call number \<open>n\<close> of \<^verbatim>\<open>w.Write\<close> returns a nil error, and
  \<open>flusher\<close> whether the writer is an \<^verbatim>\<open>http.Flusher\<close>.
\<close>

record env =
  marshal :: "event \<Rightarrow> string + string"
  sprint :: "goval \<Rightarrow> string"
  quote :: "string \<Rightarrow> string"
  itoa :: "int \<Rightarrow> string"
  write_ok :: "nat \<Rightarrow> bool"
  flusher :: bool

definition LF :: char where
  "LF = CHR 0x0A"

definition CR :: char where
  "CR = CHR 0x0D"

definition DQ :: char where
  "DQ = CHR 0x22"

text \<open>\<^verbatim>\<open>fmt.Sprint\<close> of one operand: a string is itself, nil is \<^verbatim>\<open><nil>\<close>.\<close>

definition Sprint :: "env \<Rightarrow> goval \<Rightarrow> string" where
  "Sprint env v = (case v of GNil \<Rightarrow> ''<nil>'' | GString s \<Rightarrow> s | _ \<Rightarrow> sprint env v)"

fun is_write :: "action \<Rightarrow> bool" where
  "is_write (WriteCall b) = True"
| "is_write _ = False"

text \<open>The byte strings handed to \<^verbatim>\<open>w.Write\<close>, in order.\<close>

fun writes_of :: "trace \<Rightarrow> string list" where
  "writes_of [] = []"
| "writes_of (WriteCall b # w) = b # writes_of w"
| "writes_of (a # w) = writes_of w"

text \<open>\<^verbatim>\<open>w.Write(b)\<close>: the call is recorded; the result says whether the error is nil.\<close>

definition w_Write :: "env \<Rightarrow> string \<Rightarrow> trace \<Rightarrow> bool \<times> trace" where
  "w_Write env b w = (write_ok env (length (filter is_write w)), w @ [WriteCall b])"

section \<open>The Line Framer: scan and dropCR\<close>

definition dropCR :: "string \<Rightarrow> string" where
  "dropCR data =
     (if length data > 0 \<and> data ! (length data - 1) = CR
      then take (length data - 1) data
      else data)"

text \<open>The split function: the advance and the token (\<open>None\<close> is the nil token).\<close>

definition scan :: "string \<Rightarrow> bool \<Rightarrow> nat \<times> string option" where
  "scan data atEOF =
     (if atEOF \<and> length data = 0 then (0, None)
      else (length data, Some (dropCR data)))"

text \<open>
  \<^verbatim>\<open>bufio.Scanner\<close> driven by \<open>scan\<close>. The reader is the list of chunks its \<^verbatim>\<open>Read\<close> calls
  deliver before end of file. The scanner calls the split function only on a non-empty
  buffer or at end of file; since \<open>scan\<close> advances over all it is given, the buffer is one
  chunk each time. A zero-byte read makes the scanner read again. At end of file the
  nil token ends the scan.
\<close>

fun Scan_tokens :: "string list \<Rightarrow> string list" where
  "Scan_tokens [] = (case snd (scan [] True) of None \<Rightarrow> [] | Some t \<Rightarrow> [t])"
| "Scan_tokens (c # cs) =
     (if length c = 0 then Scan_tokens cs
      else (case snd (scan c False) of
              None \<Rightarrow> Scan_tokens cs
            | Some t \<Rightarrow> t # Scan_tokens cs))"

section \<open>The Serialized Emitter: writeServerSentEvent\<close>

definition writeServerSentEvent :: "env \<Rightarrow> event \<Rightarrow> trace \<Rightarrow> trace" where
  "writeServerSentEvent env ev w =
     (case marshal env ev of
        Inl err \<Rightarrow> w @ [Log Warn ''failed to marshal event'']
      | Inr js \<Rightarrow>
          (case w_Write env (''data: '' @ js @ [LF, LF]) w of
             (ok, w1) \<Rightarrow>
               (if ok then (if flusher env then w1 @ [Flush] else w1) else w1)
                 @ [Log Debug ''wrote event'']))"

text \<open>
  The loop of \<^verbatim>\<open>streamOutput\<close> over the scanner's tokens. What one goroutine does is
  a list of steps on the trace: the emit made while the mutex is held, and the debug
  line logged after the mutex is released.
\<close>

fun streamOutput_loop :: "env \<Rightarrow> string \<Rightarrow> string list \<Rightarrow> (trace \<Rightarrow> trace) list" where
  "streamOutput_loop env key [] = []"
| "streamOutput_loop env key (tok # toks) =
     (if length tok = 0 then streamOutput_loop env key toks
      else writeServerSentEvent env [(key, GString tok)]
           # (\<lambda>w. w @ [Log Debug ''wrote event''])
           # streamOutput_loop env key toks)"

definition streamOutput :: "env \<Rightarrow> string list \<Rightarrow> string \<Rightarrow> (trace \<Rightarrow> trace) list" where
  "streamOutput env stream key = streamOutput_loop env key (Scan_tokens stream)"

text \<open>The texts \<^verbatim>\<open>streamOutput\<close> emits: the scanner's tokens that pass the length test.\<close>

definition frames :: "string list \<Rightarrow> string list" where
  "frames stream = filter (\<lambda>tok. length tok \<noteq> 0) (Scan_tokens stream)"

section \<open>The Causal Event Reorderer: streamEvents\<close>

definition callTypeConfirm :: string where
  "callTypeConfirm = ''callConfirm''"

text \<open>
  A line of the event stream, as the loop sees it: of zero length, rejected by
  \<^verbatim>\<open>json.Unmarshal\<close> (with its text), or decoded into a map.
\<close>

datatype line = Blank | Malformed string | Decoded event

text \<open>The loop's variables and the trace.\<close>

record reorderer =
  lastRunID :: string
  eventBuffer :: "event list"
  sink :: trace

text \<open>\<^verbatim>\<open>for _, ev := range eventBuffer { writeServerSentEvent(l, w, ev) }\<close>\<close>

fun emit_all :: "env \<Rightarrow> event list \<Rightarrow> trace \<Rightarrow> trace" where
  "emit_all env [] w = w"
| "emit_all env (ev # evs) w = emit_all env evs (writeServerSentEvent env ev w)"

text \<open>
  One iteration. Go compares the string \<open>lastRunID\<close> with the interface value
  \<^verbatim>\<open>e["runID"]\<close> by dynamic type and value: they are equal only when the interface holds
  that very string. The same holds for \<^verbatim>\<open>e["type"] == callTypeConfirm\<close>.
\<close>

definition streamEvents_step :: "env \<Rightarrow> line \<Rightarrow> reorderer \<Rightarrow> reorderer" where
  "streamEvents_step env li st =
     (case li of
        Blank \<Rightarrow> st
      | Malformed raw \<Rightarrow> st\<lparr>sink := sink st @ [Log Error ''failed to unmarshal event'']\<rparr>
      | Decoded e \<Rightarrow>
          (if (length (eventBuffer st) > 0 \<or> index e ''type'' = GString callTypeConfirm)
              \<and> GString (lastRunID st) \<noteq> index e ''runID''
           then st\<lparr>eventBuffer := eventBuffer st @ [e],
                   lastRunID := Sprint env (index e ''runID'')\<rparr>
           else \<lparr>lastRunID = Sprint env (index e ''runID''),
                 eventBuffer = [],
                 sink = writeServerSentEvent env e (emit_all env (eventBuffer st) (sink st))\<rparr>))"

fun streamEvents_loop :: "env \<Rightarrow> line list \<Rightarrow> reorderer \<Rightarrow> reorderer" where
  "streamEvents_loop env [] st = st"
| "streamEvents_loop env (li # lis) st = streamEvents_loop env lis (streamEvents_step env li st)"

text \<open>The loop's state when \<^verbatim>\<open>streamEvents\<close> enters it on the trace \<open>w\<close>.\<close>

definition streamEvents_init :: "trace \<Rightarrow> reorderer" where
  "streamEvents_init w =
     \<lparr>lastRunID = [], eventBuffer = [], sink = w @ [Log Debug ''receiving events'']\<rparr>"

definition streamEvents :: "env \<Rightarrow> line list \<Rightarrow> trace \<Rightarrow> trace" where
  "streamEvents env events w =
     sink (streamEvents_loop env events (streamEvents_init w))
       @ [Log Debug ''done receiving events'']"

section \<open>The Completion Finalizer: waitAndFinishStream\<close>

text \<open>
  An error returned by \<^verbatim>\<open>wait()\<close>, by what the finalizer asks of it: whether
  \<^verbatim>\<open>errors.Is(err, context.DeadlineExceeded)\<close> holds, the exit code and \<^verbatim>\<open>String()\<close> of the
  \<^verbatim>\<open>*exec.ExitError\<close> that \<^verbatim>\<open>errors.As\<close> finds in it (if any), and \<^verbatim>\<open>err.Error()\<close>.
  The nil error is \<open>None\<close>.
\<close>

datatype go_error = GoError (is_deadline: bool) (exit_error: "(int \<times> string) option") (message: string)

definition sentinel :: string where
  "sentinel = ''data: [DONE]'' @ [LF, LF]"

definition execErrOutput :: "env \<Rightarrow> string \<Rightarrow> go_error option \<Rightarrow> string" where
  "execErrOutput env stdErr err =
     (case err of
        None \<Rightarrow> []
      | Some e \<Rightarrow>
          (if is_deadline e then ''The tool call took too long to complete, aborting''
           else (case exit_error e of
                   Some (code, str) \<Rightarrow>
                     ''The tool call returned an exit code of '' @ itoa env code
                       @ '' with message '' @ quote env str
                       @ '' and output '' @ quote env stdErr
                 | None \<Rightarrow> ''failed to wait: '' @ message e @ '', error output: '' @ stdErr)))"

text \<open>
  \<open>wait\<close> is the callback: it acts on the trace and returns the error. \<open>now\<close> is what
  \<^verbatim>\<open>time.Now()\<close> reads if the error event is built.
\<close>

definition waitAndFinishStream ::
  "env \<Rightarrow> trace \<Rightarrow> string \<Rightarrow> (trace \<Rightarrow> go_error option \<times> trace) \<Rightarrow> nat \<Rightarrow> trace" where
  "waitAndFinishStream env w stdErr wait now =
     (case wait w of
        (err, w1) \<Rightarrow>
          (let out = execErrOutput env stdErr err;
               w2 = (if out \<noteq> []
                     then writeServerSentEvent env [(''time'', GTime now), (''err'', GString out)] w1
                     else w1)
           in (case w_Write env sentinel w2 of
                 (ok, w3) \<Rightarrow>
                   (if ok then (if flusher env then w3 @ [Flush] else w3) else w3)
                     @ [Log Debug ''wrote DONE event''])))"

text \<open>The collaborator's \<^verbatim>\<open>wait\<close> function: the call is recorded, \<open>res\<close> is what it returns.\<close>

definition call_wait :: "go_error option \<Rightarrow> trace \<Rightarrow> go_error option \<times> trace" where
  "call_wait res w = (res, w @ [WaitCall])"

section \<open>Headers and error responses\<close>



section \<open>Events mode: processEventStreamOutput\<close>


section \<open>Plain streaming: processOutputStream\<close>

text \<open>
  The two goroutines share nothing but the writer and the logger. The mutex makes their
  emits mutually exclusive, so the calls of \<^verbatim>\<open>w.Write\<close> and \<^verbatim>\<open>Flush\<close> of one emit are
  never mixed with those of another. A run of the pair is an interleaving of their step
  lists; the schedule says whose step comes next (\<open>True\<close>: the first list), and a
  goroutine that is alone runs to its end. The debug line a goroutine logs after it has
  released the mutex can in the program also fall between the actions of the other
  goroutine's emit; the model puts it between two steps. This moves a log line only: the
  writes and the flushes are those of the program.
\<close>

fun interleave :: "bool list \<Rightarrow> 'a list \<Rightarrow> 'a list \<Rightarrow> 'a list" where
  "interleave sched [] ys = ys"
| "interleave sched xs [] = xs"
| "interleave [] xs ys = xs @ ys"
| "interleave (True # sched) (x # xs) ys = x # interleave sched xs ys"
| "interleave (False # sched) xs (y # ys) = y # interleave sched xs ys"

fun run_steps :: "(trace \<Rightarrow> trace) list \<Rightarrow> trace \<Rightarrow> trace" where
  "run_steps [] w = w"
| "run_steps (f # fs) w = run_steps fs (f w)"


section \<open>Reading a trace\<close>

text \<open>What emitting \<open>ev\<close> hands to \<^verbatim>\<open>w.Write\<close>: one frame, or nothing when it does not marshal.\<close>

definition sse_frame :: "env \<Rightarrow> event \<Rightarrow> string list" where
  "sse_frame env ev =
     (case marshal env ev of Inl err \<Rightarrow> [] | Inr js \<Rightarrow> [''data: '' @ js @ [LF, LF]])"



text \<open>The decoded events among the lines, in order.\<close>

fun decoded :: "line list \<Rightarrow> event list" where
  "decoded [] = []"
| "decoded (Decoded e # lis) = e # decoded lis"
| "decoded (li # lis) = decoded lis"

text \<open>The value is a Go string.\<close>

fun is_GString :: "goval \<Rightarrow> bool" where
  "is_GString (GString s) = True"
| "is_GString v = False"



section \<open>An environment to run the model on concrete inputs\<close>

text \<open>
  \<open>demo_marshal\<close> stands in for \<^verbatim>\<open>json.Marshal\<close> on the small events of the examples:
  it writes the keys with the string values (no escaping) and rejects, as Go does, a time
  whose year is past 9999 (the reading is in seconds since 1970). \<open>demo_sprint\<close> is
  \<^verbatim>\<open>%v\<close> on the numbers 1 and 2 and on booleans.
\<close>

fun demo_field :: "string \<times> goval \<Rightarrow> string" where
  "demo_field (k, GString s) = [DQ] @ k @ [DQ] @ '':'' @ [DQ] @ s @ [DQ]"
| "demo_field (k, v) = [DQ] @ k @ [DQ] @ '':?''"

fun demo_bad :: "string \<times> goval \<Rightarrow> bool" where
  "demo_bad (k, GTime t) = (t \<ge> 253402300800)"
| "demo_bad (k, v) = False"

fun demo_fields :: "event \<Rightarrow> string" where
  "demo_fields [] = []"
| "demo_fields [f] = demo_field f"
| "demo_fields (f # fs) = demo_field f @ '','' @ demo_fields fs"

definition demo_marshal :: "event \<Rightarrow> string + string" where
  "demo_marshal ev =
     (if list_ex demo_bad ev then Inl ''Time.MarshalJSON: year outside of range [0,9999]''
      else Inr (''{'' @ demo_fields ev @ ''}''))"

fun demo_sprint :: "goval \<Rightarrow> string" where
  "demo_sprint (GFloat r) = (if r = 1 then ''1'' else if r = 2 then ''2'' else ''?'')"
| "demo_sprint (GBool b) = (if b then ''true'' else ''false'')"
| "demo_sprint v = ''?''"

definition demo_env :: env where
  "demo_env =
     \<lparr>marshal = demo_marshal, sprint = demo_sprint, quote = (\<lambda>s. [DQ] @ s @ [DQ]),
      itoa = (\<lambda>i. ''?''), write_ok = (\<lambda>n. True), flusher = True\<rparr>"

section \<open>Basic facts about traces and the emitter\<close>

lemma writes_of_append: "writes_of (a @ b) = writes_of a @ writes_of b"
  by (induction a rule: writes_of.induct) simp_all


lemma writes_of_wsse:
  "writes_of (writeServerSentEvent env ev w) = writes_of w @ sse_frame env ev"
  by (simp add: writeServerSentEvent_def sse_frame_def w_Write_def writes_of_append
      split: sum.splits)


lemma writes_of_emit_all:
  "writes_of (emit_all env evs w) = writes_of w @ concat (map (sse_frame env) evs)"
  by (induction evs arbitrary: w) (simp_all add: writes_of_wsse)


lemma emit_all_append:
  "emit_all env (xs @ ys) w = emit_all env ys (emit_all env xs w)"
  by (induction xs arbitrary: w) simp_all




section \<open>Facts about the Line Framer\<close>

lemma dropCR_last: "dropCR c = (if c \<noteq> [] \<and> last c = CR then butlast c else c)"
  by (auto simp add: dropCR_def last_conv_nth butlast_conv_take)

lemma scan_at_eof: "scan [] True = (0, None)"
  by (simp add: scan_def)

lemma scan_takes_all: "fst (scan data atEOF) = length data"
  by (simp add: scan_def)

lemma Scan_tokens_eq: "Scan_tokens stream = map dropCR (filter (\<lambda>c. c \<noteq> []) stream)"
  by (induction stream) (simp_all add: scan_def)

lemma frames_eq: "frames stream = filter (\<lambda>t. t \<noteq> []) (map dropCR stream)"
proof -
  have "dropCR [] = []" by (simp add: dropCR_def)
  then have "filter (\<lambda>t. t \<noteq> []) (map dropCR (filter (\<lambda>c. c \<noteq> []) stream))
        = filter (\<lambda>t. t \<noteq> []) (map dropCR stream)"
    by (induction stream) auto
  then show ?thesis by (simp add: frames_def Scan_tokens_eq)
qed

lemma streamOutput_loop_eq:
  "streamOutput_loop env key toks =
     concat (map (\<lambda>t. [writeServerSentEvent env [(key, GString t)],
                        (\<lambda>w. w @ [Log Debug ''wrote event''])])
              (filter (\<lambda>tok. length tok \<noteq> 0) toks))"
  by (induction toks) simp_all

section \<open>Facts about the reorderer's loop\<close>

lemma streamEvents_loop_append:
  "streamEvents_loop env (xs @ ys) st = streamEvents_loop env ys (streamEvents_loop env xs st)"
  by (induction xs arbitrary: st) simp_all

lemma step_lastRunID:
  "lastRunID (streamEvents_step env (Decoded e) st) = Sprint env (index e ''runID'')"
  by (simp add: streamEvents_step_def)

lemma step_buffers:
  assumes "eventBuffer st \<noteq> [] \<or> index e ''type'' = GString callTypeConfirm"
    and "\<not> is_GString (index e ''runID'')"
  shows "streamEvents_step env (Decoded e) st =
           st\<lparr>eventBuffer := eventBuffer st @ [e], lastRunID := Sprint env (index e ''runID'')\<rparr>"
proof -
  from assms(2) have "GString (lastRunID st) \<noteq> index e ''runID''"
    by (cases "index e ''runID''") auto
  with assms(1) show ?thesis
    by (auto simp add: streamEvents_step_def)
qed

lemma loop_lastRunID:
  "lastRunID (streamEvents_loop env lis st) =
     (if decoded lis = [] then lastRunID st
      else Sprint env (index (last (decoded lis)) ''runID''))"
proof (induction lis arbitrary: st)
  case Nil
  then show ?case by simp
next
  case (Cons li lis)
  show ?case
  proof (cases li)
    case Blank
    with Cons show ?thesis by (simp add: streamEvents_step_def)
  next
    case (Malformed raw)
    with Cons show ?thesis by (simp add: streamEvents_step_def)
  next
    case (Decoded e)
    with Cons show ?thesis by (simp add: step_lastRunID)
  qed
qed

lemma loop_all_buffered:
  assumes "eventBuffer st \<noteq> []"
    and "\<forall>e \<in> set (decoded lis). \<not> is_GString (index e ''runID'')"
  shows "eventBuffer (streamEvents_loop env lis st) = eventBuffer st @ decoded lis
         \<and> writes_of (sink (streamEvents_loop env lis st)) = writes_of (sink st)"
  using assms
proof (induction lis arbitrary: st)
  case Nil
  then show ?case by simp
next
  case (Cons li lis)
  show ?case
  proof (cases li)
    case Blank
    with Cons show ?thesis by (simp add: streamEvents_step_def)
  next
    case (Malformed raw)
    with Cons show ?thesis by (simp add: streamEvents_step_def writes_of_append)
  next
    case (Decoded e)
    with Cons.prems have ns: "\<not> is_GString (index e ''runID'')" by simp
    from Cons.prems(1) have "eventBuffer st \<noteq> [] \<or> index e ''type'' = GString callTypeConfirm"
      by simp
    from step_buffers [OF this ns]
    have st': "streamEvents_step env (Decoded e) st =
           st\<lparr>eventBuffer := eventBuffer st @ [e], lastRunID := Sprint env (index e ''runID'')\<rparr>" .
    have "eventBuffer (streamEvents_loop env lis (streamEvents_step env (Decoded e) st))
            = eventBuffer (streamEvents_step env (Decoded e) st) @ decoded lis
          \<and> writes_of (sink (streamEvents_loop env lis (streamEvents_step env (Decoded e) st)))
            = writes_of (sink (streamEvents_step env (Decoded e) st))"
      using Cons.prems Decoded by (intro Cons.IH) (simp_all add: st')
    with Decoded show ?thesis by (simp add: st')
  qed
qed









section \<open>The claims about the Line Framer\<close>

text \<open>
  C5. Whatever chunks the reader delivers, the texts \<^verbatim>\<open>streamOutput\<close> emits are the
  chunks with one trailing carriage return stripped (\<open>dropCR\<close> removes the last byte
  exactly when it is a carriage return), the empty results left out: no emitted text is
  the empty string, every emitted text goes to the emitter under the stream's key, and at
  end of file with nothing buffered the split function returns no token, so nothing
  more is emitted.
\<close>

theorem C5_line_framer:
  "frames stream = filter (\<lambda>t. t \<noteq> []) (map dropCR stream)
   \<and> [] \<notin> set (frames stream)
   \<and> dropCR c = (if c \<noteq> [] \<and> last c = CR then butlast c else c)
   \<and> dropCR (c @ [CR]) = c
   \<and> scan [] True = (0, None)
   \<and> frames [] = []
   \<and> streamOutput env stream key =
       concat (map (\<lambda>t. [writeServerSentEvent env [(key, GString t)],
                          (\<lambda>w. w @ [Log Debug ''wrote event''])])
                (frames stream))"
proof -
  have "[] \<notin> set (frames stream)"
    by (simp add: frames_def)
  moreover have "dropCR (c @ [CR]) = c"
    by (simp add: dropCR_last)
  moreover have "frames [] = []"
    by (simp add: frames_def scan_def)
  moreover have "streamOutput env stream key =
       concat (map (\<lambda>t. [writeServerSentEvent env [(key, GString t)],
                          (\<lambda>w. w @ [Log Debug ''wrote event''])])
                (frames stream))"
    by (simp add: streamOutput_def frames_def streamOutput_loop_eq)
  ultimately show ?thesis
    using frames_eq [of stream] dropCR_last [of c] scan_at_eof by simp
qed

lemma streamOutput_frames:
  "streamOutput env stream key =
     concat (map (\<lambda>t. [writeServerSentEvent env [(key, GString t)],
                        (\<lambda>w. w @ [Log Debug ''wrote event''])])
              (frames stream))"
  by (simp add: streamOutput_def frames_def streamOutput_loop_eq)

text \<open>
  C10. \<open>dropCR\<close> removes at most one trailing carriage return: a chunk ending in two
  of them keeps one, so for the chunk \<^verbatim>\<open>a\r\r\<close> the one step \<^verbatim>\<open>streamOutput\<close> makes is the
  emit of \<^verbatim>\<open>a\r\<close> under the stream's key (followed by its debug line), and running it
  writes the frame of that text. A chunk that is one carriage return becomes empty and
  is not emitted, wherever it stands in the stream: \<^verbatim>\<open>streamOutput\<close> does for the stream
  what it does for the chunks before it and then for the chunks after it.
\<close>

theorem C10_dropCR_at_most_one:
  "dropCR (c @ [CR, CR]) = c @ [CR]
   \<and> dropCR (''a'' @ [CR, CR]) = ''a'' @ [CR]
   \<and> frames [''a'' @ [CR, CR]] = [''a'' @ [CR]]
   \<and> dropCR [CR] = []
   \<and> frames (before @ [[CR]] @ after) = frames before @ frames after
   \<and> streamOutput env [[CR]] key = []
   \<and> streamOutput env [c @ [CR, CR]] key =
       [writeServerSentEvent env [(key, GString (c @ [CR]))],
        (\<lambda>w. w @ [Log Debug ''wrote event''])]
   \<and> streamOutput env [''a'' @ [CR, CR]] key =
       [writeServerSentEvent env [(key, GString (''a'' @ [CR]))],
        (\<lambda>w. w @ [Log Debug ''wrote event''])]
   \<and> writes_of (run_steps (streamOutput env [''a'' @ [CR, CR]] key) w) =
       writes_of w @ sse_frame env [(key, GString (''a'' @ [CR]))]
   \<and> streamOutput env (before @ [[CR]] @ after) key =
       streamOutput env before key @ streamOutput env after key"
proof -
  have two: "dropCR (d @ [CR, CR]) = d @ [CR]" for d
    using dropCR_last [of "d @ [CR, CR]"] by (simp add: butlast_append)
  have one: "dropCR [CR] = []"
    by (simp add: dropCR_def)
  have fa: "frames [''a'' @ [CR, CR]] = [''a'' @ [CR]]"
    using two [of "''a''"] by (simp add: frames_eq)
  have fb: "frames (before @ [[CR]] @ after) = frames before @ frames after"
    by (simp add: frames_eq one)
  have s1: "streamOutput env [[CR]] key = []"
    by (simp add: streamOutput_def scan_def one)
  have s2: "streamOutput env [d @ [CR, CR]] key =
       [writeServerSentEvent env [(key, GString (d @ [CR]))],
        (\<lambda>w. w @ [Log Debug ''wrote event''])]" for d
    by (simp add: streamOutput_frames frames_eq two)
  have s3: "writes_of (run_steps (streamOutput env [''a'' @ [CR, CR]] key) w) =
       writes_of w @ sse_frame env [(key, GString (''a'' @ [CR]))]"
    by (simp only: s2 [of "''a''"] run_steps.simps writes_of_append writes_of_wsse)
       (simp add: writes_of_append)
  have s4: "streamOutput env (before @ [[CR]] @ after) key =
       streamOutput env before key @ streamOutput env after key"
    by (simp only: streamOutput_frames fb map_append concat_append)
  show ?thesis
    using two [of c] two [of "''a''"] one fa fb s1 s2 [of c] s2 [of "''a''"] s3 s4
    by (intro conjI)
qed

section \<open>The claims about the Causal Event Reorderer\<close>



text \<open>
  C3. Go compares the string \<open>lastRunID\<close> with the decoded \<^verbatim>\<open>e["runID"]\<close> by dynamic type,
  so the two differ whenever the run identifier is not a JSON string. Hence, when a
  \<^verbatim>\<open>callConfirm\<close> event whose run identifier is not a string arrives, and the run
  identifiers of the events after it are not strings either, that event and every event
  after it is appended to the buffer, nothing more is written, and at the end of the
  stream the buffer is dropped: the stream writes what the lines before the confirm
  event wrote.
\<close>

theorem C3_nonstring_runID_buffers_all:
  assumes "index c ''type'' = GString callTypeConfirm"
    and "\<not> is_GString (index c ''runID'')"
    and "\<forall>e \<in> set (decoded rest). \<not> is_GString (index e ''runID'')"
  shows "(\<forall>l. GString l \<noteq> index c ''runID'')
    \<and> eventBuffer (streamEvents_loop env (Decoded c # rest) st) = eventBuffer st @ c # decoded rest
    \<and> writes_of (sink (streamEvents_loop env (Decoded c # rest) st)) = writes_of (sink st)
    \<and> writes_of (streamEvents env (before @ Decoded c # rest) w)
        = writes_of (streamEvents env before w)"
proof -
  have ne: "\<forall>l. GString l \<noteq> index c ''runID''"
    using assms(2) by (cases "index c ''runID''") auto
  have step: "streamEvents_step env (Decoded c) s =
      s\<lparr>eventBuffer := eventBuffer s @ [c], lastRunID := Sprint env (index c ''runID'')\<rparr>" for s
    using assms(1,2) by (intro step_buffers) simp_all
  have tail: "eventBuffer (streamEvents_loop env (Decoded c # rest) s) = eventBuffer s @ c # decoded rest
      \<and> writes_of (sink (streamEvents_loop env (Decoded c # rest) s)) = writes_of (sink s)" for s
    using loop_all_buffered [where env=env and lis=rest
        and st="s\<lparr>eventBuffer := eventBuffer s @ [c], lastRunID := Sprint env (index c ''runID'')\<rparr>"]
      assms(3)
    by (simp add: step)
  have "writes_of (streamEvents env (before @ Decoded c # rest) w)
        = writes_of (streamEvents env before w)"
    using tail [of "streamEvents_loop env before (streamEvents_init w)"]
    by (simp add: streamEvents_def streamEvents_loop_append writes_of_append)
  with ne tail [of st] show ?thesis by simp
qed

theorem C3_witness:
  "eventBuffer (streamEvents_loop demo_env
       [Decoded [(''runID'', GFloat 1), (''type'', GString ''callConfirm'')],
        Decoded [(''runID'', GFloat 2), (''type'', GString ''y'')], Blank]
       (streamEvents_init []))
     = [[(''runID'', GFloat 1), (''type'', GString ''callConfirm'')],
        [(''runID'', GFloat 2), (''type'', GString ''y'')]]
   \<and> writes_of (streamEvents demo_env
       [Decoded [(''runID'', GFloat 1), (''type'', GString ''x'')],
        Decoded [(''runID'', GFloat 1), (''type'', GString ''callConfirm'')],
        Decoded [(''runID'', GFloat 2), (''type'', GString ''y'')], Blank] [])
     = writes_of (streamEvents demo_env
       [Decoded [(''runID'', GFloat 1), (''type'', GString ''x'')]] [])"
proof -
  have h1: "index [(''runID'', GFloat 1), (''type'', GString ''callConfirm'')] ''type''
              = GString callTypeConfirm"
    by (simp add: index_def callTypeConfirm_def)
  have h2: "\<not> is_GString (index [(''runID'', GFloat 1), (''type'', GString ''callConfirm'')] ''runID'')"
    by (simp add: index_def)
  have h3: "\<forall>e \<in> set (decoded [Decoded [(''runID'', GFloat 2), (''type'', GString ''y'')], Blank]).
              \<not> is_GString (index e ''runID'')"
    by (simp add: index_def)
  show ?thesis
    using C3_nonstring_runID_buffers_all [OF h1 h2 h3, of demo_env "streamEvents_init []"
        "[Decoded [(''runID'', GFloat 1), (''type'', GString ''x'')]]" "[]"]
    by (simp add: streamEvents_init_def)
qed

text \<open>
  C4, as amended. At every point of the loop, \<open>lastRunID\<close> is the \<^verbatim>\<open>fmt.Sprint\<close>
  rendering of the run identifier of the event decoded last, whether that event was
  emitted or put into the buffer, and it is the empty string as long as no event has
  been decoded.
\<close>

theorem C4_lastRunID_is_last_decoded:
  "lastRunID (streamEvents_loop env lis (streamEvents_init w)) =
     (if decoded lis = [] then []
      else Sprint env (index (last (decoded lis)) ''runID''))"
  by (simp add: loop_lastRunID streamEvents_init_def)

text \<open>
  C4 as stated fails: after a single \<^verbatim>\<open>callConfirm\<close> event of run \<^verbatim>\<open>a\<close> nothing has
  been written and the event sits in the buffer, yet \<open>lastRunID\<close> is \<^verbatim>\<open>a\<close>, not the
  empty string. And after an event of run 1 followed by a \<^verbatim>\<open>callConfirm\<close> event of
  run 2, the only event emitted is the one of run 1, yet \<open>lastRunID\<close> is \<^verbatim>\<open>2\<close>.
\<close>

theorem C4_counterexample:
  "writes_of (sink (streamEvents_loop demo_env
       [Decoded [(''runID'', GString ''a''), (''type'', GString ''callConfirm'')]]
       (streamEvents_init []))) = []
   \<and> eventBuffer (streamEvents_loop demo_env
       [Decoded [(''runID'', GString ''a''), (''type'', GString ''callConfirm'')]]
       (streamEvents_init []))
     = [[(''runID'', GString ''a''), (''type'', GString ''callConfirm'')]]
   \<and> lastRunID (streamEvents_loop demo_env
       [Decoded [(''runID'', GString ''a''), (''type'', GString ''callConfirm'')]]
       (streamEvents_init [])) = ''a''
   \<and> writes_of (sink (streamEvents_loop demo_env
       [Decoded [(''runID'', GString ''1''), (''type'', GString ''x'')],
        Decoded [(''runID'', GString ''2''), (''type'', GString ''callConfirm'')]]
       (streamEvents_init [])))
     = sse_frame demo_env [(''runID'', GString ''1''), (''type'', GString ''x'')]
   \<and> lastRunID (streamEvents_loop demo_env
       [Decoded [(''runID'', GString ''1''), (''type'', GString ''x'')],
        Decoded [(''runID'', GString ''2''), (''type'', GString ''callConfirm'')]]
       (streamEvents_init [])) = ''2''"
  by (simp add: streamEvents_init_def streamEvents_step_def index_def callTypeConfirm_def
      Sprint_def writes_of_wsse writes_of_append)


section \<open>The claims about the Completion Finalizer\<close>

lemma finish_writes:
  assumes "wait w = (err, w1)"
  shows "writes_of (waitAndFinishStream env w stdErr wait now) =
           writes_of w1
           @ (if execErrOutput env stdErr err \<noteq> []
              then sse_frame env [(''time'', GTime now), (''err'', GString (execErrOutput env stdErr err))]
              else [])
           @ [sentinel]"
  using assms
  by (simp add: waitAndFinishStream_def Let_def w_Write_def writes_of_append writes_of_wsse)


text \<open>
  C6. If \<^verbatim>\<open>wait()\<close> returns an error that matches \<^verbatim>\<open>context.DeadlineExceeded\<close>, the
  finalizer calls the emitter exactly once, on the event made of the time and of an
  \<^verbatim>\<open>err\<close> field whose message contains \<^verbatim>\<open>took too long\<close>, and then writes the sentinel:
  after \<^verbatim>\<open>wait()\<close> has returned, the writes are that event's frame (one frame when the
  event marshals) followed by the sentinel, and nothing else.
\<close>

theorem C6_deadline_one_err_event:
  assumes "wait w = (Some e, w1)" and "is_deadline e"
  shows "sublist ''took too long'' (execErrOutput env stdErr (Some e))
    \<and> waitAndFinishStream env w stdErr wait now =
        (let w2 = writeServerSentEvent env
                    [(''time'', GTime now), (''err'', GString (execErrOutput env stdErr (Some e)))] w1
         in (if write_ok env (length (filter is_write w2)) \<and> flusher env
             then w2 @ [WriteCall sentinel, Flush]
             else w2 @ [WriteCall sentinel])
            @ [Log Debug ''wrote DONE event''])
    \<and> writes_of (waitAndFinishStream env w stdErr wait now) =
        writes_of w1
        @ sse_frame env [(''time'', GTime now), (''err'', GString (execErrOutput env stdErr (Some e)))]
        @ [sentinel]
    \<and> (\<forall>js. marshal env [(''time'', GTime now), (''err'', GString (execErrOutput env stdErr (Some e)))]
               = Inr js
          \<longrightarrow> writes_of (waitAndFinishStream env w stdErr wait now) =
                writes_of w1 @ [''data: '' @ js @ [LF, LF], sentinel])"
proof -
  have msg: "execErrOutput env stdErr (Some e) = ''The tool call took too long to complete, aborting''"
    using assms(2) by (simp add: execErrOutput_def)
  have "''The tool call took too long to complete, aborting''
          = ''The tool call '' @ ''took too long'' @ '' to complete, aborting''"
    by simp
  then have sub: "sublist ''took too long'' (execErrOutput env stdErr (Some e))"
    unfolding msg sublist_def by blast
  have tr: "waitAndFinishStream env w stdErr wait now =
        (let w2 = writeServerSentEvent env
                    [(''time'', GTime now), (''err'', GString (execErrOutput env stdErr (Some e)))] w1
         in (if write_ok env (length (filter is_write w2)) \<and> flusher env
             then w2 @ [WriteCall sentinel, Flush]
             else w2 @ [WriteCall sentinel])
            @ [Log Debug ''wrote DONE event''])"
    using assms(1) by (simp add: waitAndFinishStream_def Let_def w_Write_def msg)
  have wr: "writes_of (waitAndFinishStream env w stdErr wait now) =
        writes_of w1
        @ sse_frame env [(''time'', GTime now), (''err'', GString (execErrOutput env stdErr (Some e)))]
        @ [sentinel]"
    using finish_writes [where wait=wait and w=w and env=env and stdErr=stdErr and now=now, OF assms(1)]
    by (simp add: msg)
  have "\<forall>js. marshal env [(''time'', GTime now), (''err'', GString (execErrOutput env stdErr (Some e)))]
               = Inr js
          \<longrightarrow> writes_of (waitAndFinishStream env w stdErr wait now) =
                writes_of w1 @ [''data: '' @ js @ [LF, LF], sentinel]"
    by (simp add: wr sse_frame_def)
  with sub tr wr show ?thesis by blast
qed

theorem C6_witness:
  "writes_of (waitAndFinishStream demo_env [] [] (call_wait (Some (GoError True None ''context deadline exceeded''))) 7)
     = [''data: {'' @ [DQ] @ ''time'' @ [DQ] @ '':?,'' @ [DQ] @ ''err'' @ [DQ] @ '':'' @ [DQ]
          @ ''The tool call took too long to complete, aborting'' @ [DQ] @ ''}'' @ [LF, LF],
        sentinel]"
proof -
  have h1: "call_wait (Some (GoError True None ''context deadline exceeded'')) []
              = (Some (GoError True None ''context deadline exceeded''), [WaitCall])"
    by (simp add: call_wait_def)
  have h2: "is_deadline (GoError True None ''context deadline exceeded'')"
    by simp
  from C6_deadline_one_err_event [where env=demo_env and stdErr="[]" and now=7 and w="[]"
        and wait="call_wait (Some (GoError True None ''context deadline exceeded''))", OF h1 h2]
  have "writes_of (waitAndFinishStream demo_env [] []
          (call_wait (Some (GoError True None ''context deadline exceeded''))) 7)
        = writes_of [WaitCall]
          @ sse_frame demo_env
              [(''time'', GTime 7),
               (''err'', GString (execErrOutput demo_env []
                                    (Some (GoError True None ''context deadline exceeded''))))]
          @ [sentinel]"
    by (elim conjE)
  then show ?thesis
    by (simp add: sse_frame_def demo_env_def demo_marshal_def execErrOutput_def)
qed

text \<open>
  C7. If \<^verbatim>\<open>wait()\<close> returns nil, the finalizer emits no event: after \<^verbatim>\<open>wait()\<close> has
  returned it writes the sentinel, once, flushes it if it can, logs, and does nothing
  else.
\<close>

theorem C7_nil_only_sentinel:
  assumes "wait w = (None, w1)"
  shows "waitAndFinishStream env w stdErr wait now =
        (if write_ok env (length (filter is_write w1)) \<and> flusher env
         then w1 @ [WriteCall sentinel, Flush]
         else w1 @ [WriteCall sentinel])
        @ [Log Debug ''wrote DONE event'']
    \<and> writes_of (waitAndFinishStream env w stdErr wait now) = writes_of w1 @ [sentinel]"
  using assms
  by (simp add: waitAndFinishStream_def Let_def w_Write_def execErrOutput_def writes_of_append)

theorem C7_witness:
  "waitAndFinishStream demo_env [] ''captured'' (call_wait None) 7
     = [WaitCall, WriteCall sentinel, Flush, Log Debug ''wrote DONE event'']"
proof -
  have h: "call_wait None [] = (None, [WaitCall])"
    by (simp add: call_wait_def)
  show ?thesis
    using C7_nil_only_sentinel [where env=demo_env and stdErr="''captured''" and now=7
        and w="[]" and wait="call_wait None", OF h]
    by (simp add: demo_env_def)
qed

section \<open>The claim about the Serialized Emitter\<close>

text \<open>
  C8. When \<^verbatim>\<open>json.Marshal\<close> fails on an event, \<^verbatim>\<open>writeServerSentEvent\<close> logs a warning and
  returns: it writes nothing and flushes nothing. Its callers go on: the loop that
  empties the buffer writes what it writes without that event, the reorderer's loop
  goes on to the lines that follow, and \<^verbatim>\<open>streamOutput\<close> goes on to the tokens that
  follow.
\<close>

theorem C8_marshal_failure_dropped:
  assumes "marshal env ev = Inl err"
  shows "writeServerSentEvent env ev w = w @ [Log Warn ''failed to marshal event'']
    \<and> writes_of (writeServerSentEvent env ev w) = writes_of w
    \<and> writes_of (emit_all env (xs @ ev # ys) w) = writes_of (emit_all env (xs @ ys) w)
    \<and> emit_all env (ev # ys) w = emit_all env ys (w @ [Log Warn ''failed to marshal event''])
    \<and> streamEvents_loop env (Decoded ev # rest) st =
        streamEvents_loop env rest
          (if (length (eventBuffer st) > 0 \<or> index ev ''type'' = GString callTypeConfirm)
              \<and> GString (lastRunID st) \<noteq> index ev ''runID''
           then st\<lparr>eventBuffer := eventBuffer st @ [ev],
                   lastRunID := Sprint env (index ev ''runID'')\<rparr>
           else \<lparr>lastRunID = Sprint env (index ev ''runID''), eventBuffer = [],
                 sink = emit_all env (eventBuffer st) (sink st)
                        @ [Log Warn ''failed to marshal event'']\<rparr>)
    \<and> (\<forall>key tok toks. ev = [(key, GString tok)] \<and> tok \<noteq> [] \<longrightarrow>
          run_steps (streamOutput_loop env key (tok # toks)) w =
            run_steps (streamOutput_loop env key toks)
              (w @ [Log Warn ''failed to marshal event'', Log Debug ''wrote event'']))"
proof -
  have drop: "writeServerSentEvent env ev t = t @ [Log Warn ''failed to marshal event'']" for t
    using assms by (simp add: writeServerSentEvent_def)
  have none: "sse_frame env ev = []"
    using assms by (simp add: sse_frame_def)
  have "writes_of (emit_all env (xs @ ev # ys) w) = writes_of (emit_all env (xs @ ys) w)"
    by (simp add: writes_of_emit_all none)
  moreover have "streamEvents_loop env (Decoded ev # rest) st =
        streamEvents_loop env rest
          (if (length (eventBuffer st) > 0 \<or> index ev ''type'' = GString callTypeConfirm)
              \<and> GString (lastRunID st) \<noteq> index ev ''runID''
           then st\<lparr>eventBuffer := eventBuffer st @ [ev],
                   lastRunID := Sprint env (index ev ''runID'')\<rparr>
           else \<lparr>lastRunID = Sprint env (index ev ''runID''), eventBuffer = [],
                 sink = emit_all env (eventBuffer st) (sink st)
                        @ [Log Warn ''failed to marshal event'']\<rparr>)"
    by (simp add: streamEvents_step_def drop)
  moreover have "\<forall>key tok toks. ev = [(key, GString tok)] \<and> tok \<noteq> [] \<longrightarrow>
          run_steps (streamOutput_loop env key (tok # toks)) w =
            run_steps (streamOutput_loop env key toks)
              (w @ [Log Warn ''failed to marshal event'', Log Debug ''wrote event''])"
    using drop by auto
  ultimately show ?thesis
    using drop [of w] by (simp add: writes_of_append)
qed

theorem C8_witness:
  "writeServerSentEvent demo_env [(''time'', GTime 253402300800), (''err'', GString ''late'')] []
     = [Log Warn ''failed to marshal event'']
   \<and> writes_of (emit_all demo_env
        [[(''stdout'', GString ''a'')],
         [(''time'', GTime 253402300800), (''err'', GString ''late'')],
         [(''stdout'', GString ''b'')]] [])
     = writes_of (emit_all demo_env [[(''stdout'', GString ''a'')], [(''stdout'', GString ''b'')]] [])"
proof -
  have h: "marshal demo_env [(''time'', GTime 253402300800), (''err'', GString ''late'')]
             = Inl ''Time.MarshalJSON: year outside of range [0,9999]''"
    by (simp add: demo_env_def demo_marshal_def)
  show ?thesis
    using C8_marshal_failure_dropped [OF h, of "[]" "[[(''stdout'', GString ''a'')]]"
        "[[(''stdout'', GString ''b'')]]"]
    by simp
qed

section \<open>The claims about whole sessions\<close>

text \<open>
  The schedules give exactly the interleavings of two step lists: every run of
  \<open>interleave\<close> is a shuffle of the two lists, and every shuffle is the run of some
  schedule.
\<close>

lemma append_in_shuffles: "xs @ ys \<in> shuffles xs ys"
  by (induction xs) (simp_all add: Cons_in_shuffles_leftI)

lemma interleave_in_shuffles: "interleave sched xs ys \<in> shuffles xs ys"
proof (induction sched xs ys rule: interleave.induct)
  case (3 x xs y ys)
  show ?case
    using append_in_shuffles [of "x # xs" "y # ys"] by simp
next
  case (4 sched x xs y ys)
  then show ?case
    using Cons_in_shuffles_leftI [of "interleave sched xs (y # ys)" xs "y # ys" x] by simp
next
  case (5 sched x xs y ys)
  then show ?case
    using Cons_in_shuffles_rightI [of "interleave sched (x # xs) ys" "x # xs" ys y] by simp
qed simp_all

lemma shuffles_are_interleavings:
  assumes "zs \<in> shuffles xs ys"
  shows "\<exists>sched. interleave sched xs ys = zs"
  using assms
proof (induction xs ys arbitrary: zs rule: shuffles.induct)
  case (1 ys)
  then show ?case by simp
next
  case (2 xs)
  then show ?case by (cases xs) simp_all
next
  case (3 x xs y ys)
  from "3.prems" consider
      (left) zs' where "zs = x # zs'" "zs' \<in> shuffles xs (y # ys)"
    | (right) zs' where "zs = y # zs'" "zs' \<in> shuffles (x # xs) ys"
    by auto
  then show ?case
  proof cases
    case left
    from "3.IH"(1) [OF left(2)] obtain sched where "interleave sched xs (y # ys) = zs'" ..
    with left(1) have "interleave (True # sched) (x # xs) (y # ys) = zs" by simp
    then show ?thesis ..
  next
    case right
    from "3.IH"(2) [OF right(2)] obtain sched where "interleave sched (x # xs) ys = zs'" ..
    with right(1) have "interleave (False # sched) (x # xs) (y # ys) = zs" by simp
    then show ?thesis ..
  qed
qed

















end
